theory Spec2Isabelle
  imports Main "HOL-Library.Word" "HOL-Library.Sublist"
begin

unbundle bit_operations_syntax

section \<open>Go values\<close>

text \<open>
  The package works on Go's \<open>int\<close>, \<open>string\<close> and \<open>[]byte\<close>. An \<open>int\<close> is a
  two's-complement machine integer, 64 bits wide on the 64-bit targets: \<open>+\<close> and unary
  \<open>-\<close> wrap around, comparisons are signed (\<open><s\<close>), and \<open>sint\<close> reads the value.
  A Go string is a sequence of bytes, here a \<open>char list\<close>; a byte slice is a list of
  8-bit words.
\<close>

type_synonym go_int = "64 word"
type_synonym uint64 = "64 word"
type_synonym byte = "8 word"

definition MinInt :: go_int where
  "MinInt = 0x8000000000000000"

definition MaxInt :: go_int where
  "MaxInt = 0x7FFFFFFFFFFFFFFF"

section \<open>The standard library functions the package calls\<close>

subsection \<open>strconv.Itoa\<close>

text \<open>
  \<open>strconv.Itoa(i)\<close> is \<open>FormatInt(int64(i), 10)\<close>, which hands the bits of \<open>i\<close> as a
  \<open>uint64\<close> to \<open>formatBits\<close> together with the flag \<open>i < 0\<close>. For a negative value
  \<open>formatBits\<close> negates the unsigned word (\<open>u = -u\<close>), writes the digits of \<open>u\<close> from
  the least significant one, dividing by ten, and puts \<open>-\<close> in front. (The library
  takes the digits two at a time from a table, and has a shortcut for \<open>0 \<le> i < 100\<close>;
  both give the same digits.)
\<close>

definition digits :: string where
  "digits = ''0123456789''"

function formatBits :: "uint64 \<Rightarrow> string" where
  "formatBits u =
     (if u < 10 then [digits ! unat u]
      else formatBits (u div 10) @ [digits ! unat (u mod 10)])"
  by pat_completeness auto
termination
proof (relation "measure unat")
  show "wf (measure unat)" by simp
next
  fix u :: uint64
  assume "\<not> u < 10"
  then have "10 \<le> unat u" by (simp add: word_less_nat_alt not_less)
  then show "(u div 10, u) \<in> measure unat" by (simp add: unat_div)
qed

declare formatBits.simps [simp del]

definition Itoa :: "go_int \<Rightarrow> string" where
  "Itoa i = (if i <s 0 then CHR ''-'' # formatBits (- i) else formatBits i)"

subsection \<open>base64.StdEncoding.EncodeToString\<close>

text \<open>
  The standard encoding of RFC 4648 with padding. \<open>Encode\<close> packs each full group of
  three bytes into a 24-bit value and writes its four 6-bit fields through the
  alphabet; a remainder of one or two bytes is packed the same way with the missing
  bytes as zero and the unused output positions filled with the pad character \<open>=\<close>.
\<close>

definition encodeStd :: string where
  "encodeStd = ''ABCDEFGHIJKLMNOPQRSTUVWXYZabcdefghijklmnopqrstuvwxyz0123456789+/''"

definition StdPadding :: char where
  "StdPadding = CHR ''=''"

definition enc6 :: "uint64 \<Rightarrow> nat \<Rightarrow> char" where
  "enc6 val k = encodeStd ! unat (drop_bit k val AND 0x3F)"

fun EncodeToString :: "byte list \<Rightarrow> string" where
  "EncodeToString (a # b # c # src) =
     (let val = push_bit 16 (ucast a) OR push_bit 8 (ucast b) OR ucast c
      in [enc6 val 18, enc6 val 12, enc6 val 6, enc6 val 0] @ EncodeToString src)"
| "EncodeToString [a, b] =
     (let val = push_bit 16 (ucast a) OR push_bit 8 (ucast b)
      in [enc6 val 18, enc6 val 12, enc6 val 6, StdPadding])"
| "EncodeToString [a] =
     (let val = push_bit 16 (ucast a)
      in [enc6 val 18, enc6 val 12, StdPadding, StdPadding])"
| "EncodeToString [] = []"

section \<open>The package escapes\<close>

record ConsoleDim =
  Rows :: go_int
  Cols :: go_int

subsection \<open>Fragments and constants\<close>

definition Esc :: string where
  "Esc = [CHR 0x1B, CHR ''['']"

definition Osc :: string where
  "Osc = [CHR 0x1B, CHR '']'']"

definition Bel :: string where
  "Bel = [CHR 0x07]"

definition CursorBlinkEnable :: string where
  "CursorBlinkEnable = Esc @ ''?12h''"

definition CursorBlinkDisable :: string where
  "CursorBlinkDisable = Esc @ ''?12I''"

definition CursorShow :: string where
  "CursorShow = Esc @ ''?25h''"

definition CursorHide :: string where
  "CursorHide = Esc @ ''?25l''"

definition ColorReset :: string where
  "ColorReset = Esc @ ''0m''"

definition ClearScreen :: string where
  "ClearScreen = [CHR 0x1B, CHR ''c'']"

subsection \<open>Cursor and scroll functions\<close>

definition CursorPosX :: "go_int \<Rightarrow> string" where
  "CursorPosX x = Esc @ Itoa (x + 1) @ ''G''"



text \<open>
  \<open>CursorMove\<close> starts from the empty string \<open>s\<close>, assigns the horizontal part and
  then appends the vertical part.
\<close>

definition CursorMove :: "go_int \<Rightarrow> go_int \<Rightarrow> string" where
  "CursorMove x y =
     (let s = [];
          s = (if x <s 0 then Esc @ Itoa (- x) @ ''D''
               else if 0 <s x then Esc @ Itoa x @ ''C''
               else s);
          s = (if y <s 0 then s @ Esc @ Itoa (- y) @ ''A''
               else if 0 <s y then s @ Esc @ Itoa y @ ''B''
               else s)
      in s)"

definition Scroll :: "go_int \<Rightarrow> string" where
  "Scroll n =
     (if 0 <s n then Esc @ Itoa n @ ''S''
      else if n <s 0 then Esc @ Itoa (- n) @ ''T''
      else [])"

subsection \<open>Text edit functions\<close>

definition TextInsertChars :: "go_int \<Rightarrow> string" where
  "TextInsertChars n = Esc @ Itoa n @ ''@''"

definition TextDeleteChars :: "go_int \<Rightarrow> string" where
  "TextDeleteChars n = Esc @ Itoa n @ ''P''"

definition TextEraseChars :: "go_int \<Rightarrow> string" where
  "TextEraseChars n = Esc @ Itoa n @ ''X''"

definition TextInsertLines :: "go_int \<Rightarrow> string" where
  "TextInsertLines n = Esc @ Itoa n @ ''L''"

definition TextDeleteLines :: "go_int \<Rightarrow> string" where
  "TextDeleteLines n = Esc @ Itoa n @ ''M''"

subsection \<open>Hyperlink, image and working directory\<close>

definition Link :: "string \<Rightarrow> string \<Rightarrow> string" where
  "Link url text = Osc @ ''8;;'' @ url @ Bel @ text @ Osc @ ''8;;'' @ Bel"

definition ImageWidthHeight :: "byte list \<Rightarrow> go_int \<Rightarrow> go_int \<Rightarrow> bool \<Rightarrow> string" where
  "ImageWidthHeight img height width preserveAspectRatio =
     (let s = Osc @ ''1337;File=inline=1'';
          s = (if 0 <s height then s @ '';width='' @ Itoa height else s);
          s = (if 0 <s width then s @ '';height='' @ Itoa width else s);
          s = (if \<not> preserveAspectRatio then s @ '';preserveAspectRatio=0'' else s)
      in s @ '':'' @ EncodeToString img @ Bel)"

definition Image :: "byte list \<Rightarrow> string" where
  "Image img = ImageWidthHeight img 0 0 True"

definition SetCwd :: "string \<Rightarrow> string" where
  "SetCwd dir = Osc @ ''50;CurrentDir='' @ dir @ Bel"

section \<open>Decimal notation\<close>

text \<open>
  What the specification calls the decimal representation of an integer: the digits of
  its magnitude, most significant first and without leading zeros, after a minus sign
  when it is negative. \<open>shortest_decimal s m\<close> says that \<open>s\<close> is that notation of the
  natural number \<open>m\<close>: digits only, no leading zero, value \<open>m\<close>.
\<close>

fun spec_nat_digits :: "nat \<Rightarrow> string" where
  "spec_nat_digits n =
     (if n < 10 then [digits ! n]
      else spec_nat_digits (n div 10) @ [digits ! (n mod 10)])"

declare spec_nat_digits.simps [simp del]

definition spec_decimal :: "int \<Rightarrow> string" where
  "spec_decimal i =
     (if i < 0 then CHR ''-'' # spec_nat_digits (nat (- i)) else spec_nat_digits (nat i))"

definition is_digit :: "char \<Rightarrow> bool" where
  "is_digit c = (48 \<le> (of_char c :: nat) \<and> (of_char c :: nat) \<le> 57)"

definition digits_value :: "string \<Rightarrow> nat" where
  "digits_value s = foldl (\<lambda>a c. 10 * a + ((of_char c :: nat) - 48)) 0 s"

definition shortest_decimal :: "string \<Rightarrow> nat \<Rightarrow> bool" where
  "shortest_decimal s m =
     (s \<noteq> [] \<and> list_all is_digit s \<and> (s = ''0'' \<or> hd s \<noteq> CHR ''0'') \<and> digits_value s = m)"

section \<open>The library functions compute what they are documented to\<close>

lemma digits_nth:
  "d < 10 \<Longrightarrow> is_digit (digits ! d) \<and> (of_char (digits ! d) :: nat) = 48 + d"
proof -
  assume "d < 10"
  then have "d \<in> {0, 1, 2, 3, 4, 5, 6, 7, 8, 9}" by auto
  then show ?thesis by (auto simp: digits_def is_digit_def)
qed

lemma digits_nth_zero: "d < 10 \<Longrightarrow> digits ! d = CHR ''0'' \<longleftrightarrow> d = 0"
proof -
  assume "d < 10"
  then have "d \<in> {0, 1, 2, 3, 4, 5, 6, 7, 8, 9}" by auto
  then show ?thesis by (auto simp: digits_def)
qed

lemma formatBits_spec: "formatBits u = spec_nat_digits (unat u)"
proof (induction u rule: formatBits.induct)
  case (1 u)
  show ?case
  proof (cases "u < 10")
    case True
    then have "unat u < 10" by (simp add: word_less_nat_alt)
    with True show ?thesis
      by (simp add: formatBits.simps [of u] spec_nat_digits.simps [of "unat u"])
  next
    case False
    then have "\<not> unat u < 10" by (simp add: word_less_nat_alt)
    with False "1.IH" show ?thesis
      by (simp add: formatBits.simps [of u] spec_nat_digits.simps [of "unat u"]
          unat_div unat_mod)
  qed
qed

lemma sint_uint_cases:
  fixes i :: go_int
  shows "sint i = (if uint i < 2 ^ 63 then uint i else uint i - 2 ^ 64)"
proof -
  have eq: "sint i = (uint i + 2 ^ 63) mod 2 ^ 64 - 2 ^ 63"
    by (simp add: sint_uint signed_take_bit_eq_take_bit_shift take_bit_eq_mod)
  have lo: "0 \<le> uint i" and hi: "uint i < 2 ^ 64"
    using uint_lt2p [of i] by simp_all
  show ?thesis
  proof (cases "uint i < 2 ^ 63")
    case True
    with lo have "(uint i + 2 ^ 63) mod 2 ^ 64 = uint i + 2 ^ 63"
      by (intro mod_pos_pos_trivial) simp_all
    with True eq show ?thesis by simp
  next
    case False
    with hi have "(uint i + 2 ^ 63) mod 2 ^ 64 = uint i + 2 ^ 63 - 2 ^ 64"
      by (intro int_mod_pos_eq [where q = 1]) simp_all
    with False eq show ?thesis by simp
  qed
qed

lemma uint_neg_cases:
  fixes i :: go_int
  shows "uint (- i) = (if i = 0 then 0 else 2 ^ 64 - uint i)"
proof (cases "i = 0")
  case True
  then show ?thesis by simp
next
  case False
  then have "0 < uint i" by (simp add: word_greater_zero_iff uint_0_iff less_le)
  moreover have "uint i < 2 ^ 64" using uint_lt2p [of i] by simp
  ultimately have "(- uint i) mod 2 ^ 64 = 2 ^ 64 - uint i"
    by (intro int_mod_pos_eq [where q = "-1"]) simp_all
  with False show ?thesis by (simp add: uint_word_ariths)
qed

lemma unat_neg_of_negative:
  fixes i :: go_int
  assumes "i <s 0"
  shows "unat (- i) = nat (- sint i)"
proof -
  from assms have neg: "sint i < 0" by (simp add: word_sless_alt)
  then have "i \<noteq> 0" by auto
  with neg show ?thesis
    by (simp add: unat_eq_nat_uint uint_neg_cases sint_uint_cases split: if_splits)
qed

lemma unat_of_nonnegative:
  fixes i :: go_int
  assumes "\<not> i <s 0"
  shows "unat i = nat (sint i)"
proof -
  from assms have nonneg: "0 \<le> sint i" by (simp add: word_sless_alt)
  have hi: "uint i < 2 ^ 64" using uint_lt2p [of i] by simp
  have "sint i = uint i"
  proof (cases "uint i < 2 ^ 63")
    case True
    then show ?thesis by (simp add: sint_uint_cases)
  next
    case False
    then have "sint i = uint i - 2 ^ 64" by (simp add: sint_uint_cases)
    with hi nonneg show ?thesis by linarith
  qed
  then show ?thesis by (simp only: unat_eq_nat_uint)
qed

lemma Itoa_spec: "Itoa i = spec_decimal (sint i)"
proof (cases "i <s 0")
  case True
  then show ?thesis
    by (simp add: Itoa_def spec_decimal_def formatBits_spec unat_neg_of_negative word_sless_alt)
next
  case False
  then show ?thesis
    by (simp add: Itoa_def spec_decimal_def formatBits_spec unat_of_nonnegative word_sless_alt)
qed

lemma sless_zero_iff: "(i :: go_int) <s 0 \<longleftrightarrow> sint i < 0"
  by (simp add: word_sless_alt)

lemma zero_sless_iff: "0 <s (i :: go_int) \<longleftrightarrow> 0 < sint i"
  by (simp add: word_sless_alt)

lemma is_digit_not_minus: "is_digit c \<Longrightarrow> c \<noteq> CHR ''-''"
  by (auto simp: is_digit_def)

lemma spec_nat_digits_nonempty: "spec_nat_digits n \<noteq> []"
  by (subst spec_nat_digits.simps) simp

lemma spec_nat_digits_all_digits: "list_all is_digit (spec_nat_digits n)"
proof (induction n rule: spec_nat_digits.induct)
  case (1 n)
  show ?case
  proof (cases "n < 10")
    case True
    then show ?thesis by (simp add: spec_nat_digits.simps [of n] digits_nth)
  next
    case False
    with "1.IH" show ?thesis by (simp add: spec_nat_digits.simps [of n] digits_nth)
  qed
qed

lemma digits_value_snoc:
  "digits_value (s @ [c]) = 10 * digits_value s + ((of_char c :: nat) - 48)"
  by (simp add: digits_value_def)

lemma spec_nat_digits_value: "digits_value (spec_nat_digits n) = n"
proof (induction n rule: spec_nat_digits.induct)
  case (1 n)
  show ?case
  proof (cases "n < 10")
    case True
    then show ?thesis
      by (simp add: spec_nat_digits.simps [of n] digits_nth digits_value_def)
  next
    case False
    with "1.IH" show ?thesis
      by (simp add: spec_nat_digits.simps [of n] digits_value_snoc digits_nth)
  qed
qed

lemma spec_nat_digits_hd: "0 < n \<Longrightarrow> hd (spec_nat_digits n) \<noteq> CHR ''0''"
proof (induction n rule: spec_nat_digits.induct)
  case (1 n)
  show ?case
  proof (cases "n < 10")
    case True
    with "1.prems" show ?thesis
      by (simp add: spec_nat_digits.simps [of n] digits_nth_zero)
  next
    case False
    then have "0 < n div 10" by simp
    with False "1.IH" have "hd (spec_nat_digits (n div 10)) \<noteq> CHR ''0''" by simp
    with False show ?thesis
      by (simp add: spec_nat_digits.simps [of n] spec_nat_digits_nonempty)
  qed
qed

lemma spec_nat_digits_zero: "spec_nat_digits 0 = ''0''"
  by (simp add: spec_nat_digits.simps [of 0] digits_def)

lemma spec_nat_digits_shortest: "shortest_decimal (spec_nat_digits n) n"
proof (cases "n = 0")
  case True
  then show ?thesis
    by (simp add: shortest_decimal_def spec_nat_digits_zero is_digit_def digits_value_def)
next
  case False
  then show ?thesis
    by (simp add: shortest_decimal_def spec_nat_digits_nonempty spec_nat_digits_all_digits
        spec_nat_digits_hd spec_nat_digits_value)
qed

lemma spec_nat_digits_no_minus: "CHR ''-'' \<notin> set (spec_nat_digits n)"
  using spec_nat_digits_all_digits [of n] is_digit_not_minus
  by (auto simp: list_all_iff)

lemma uint_MinInt: "uint MinInt = 2 ^ 63"
  by (simp add: MinInt_def)

lemma sint_neg:
  fixes i :: go_int
  assumes "i \<noteq> MinInt"
  shows "sint (- i) = - sint i"
proof (cases "i = 0")
  case True
  then show ?thesis by simp
next
  case False
  have ne: "uint i \<noteq> 2 ^ 63"
    using assms uint_MinInt by (metis word_uint_eq_iff)
  have lo: "0 < uint i" using False by (simp add: uint_0_iff less_le)
  have hi: "uint i < 2 ^ 64" using uint_lt2p [of i] by simp
  have neg: "uint (- i) = 2 ^ 64 - uint i" using False by (simp add: uint_neg_cases)
  show ?thesis
  proof (cases "uint i < 2 ^ 63")
    case True
    with lo neg have "\<not> uint (- i) < 2 ^ 63" by simp
    with True neg show ?thesis
      by (simp add: sint_uint_cases [of i] sint_uint_cases [of "- i"])
  next
    case False
    with ne neg have "uint (- i) < 2 ^ 63" by simp
    with False neg show ?thesis
      by (simp add: sint_uint_cases [of i] sint_uint_cases [of "- i"])
  qed
qed

lemma sint_zero_iff: "sint (i :: go_int) = 0 \<longleftrightarrow> i = 0"
proof
  assume z: "sint i = 0"
  have "uint i < 2 ^ 64" using uint_lt2p [of i] by simp
  with z have "uint i = 0" by (simp add: sint_uint_cases split: if_splits)
  then show "i = 0" by (simp add: uint_0_iff)
next
  assume "i = 0"
  then show "sint i = 0" by simp
qed

lemma Itoa_magnitude_neg:
  assumes "i \<noteq> MinInt" "sint i < 0"
  shows "Itoa (- i) = spec_nat_digits (nat \<bar>sint i\<bar>)"
  using assms by (simp add: Itoa_spec sint_neg spec_decimal_def)

lemma Itoa_magnitude_pos:
  assumes "0 < sint i"
  shows "Itoa i = spec_nat_digits (nat \<bar>sint i\<bar>)"
  using assms by (simp add: Itoa_spec spec_decimal_def)

text \<open>
  Go's \<open>x + 1\<close> is the successor of the signed value everywhere but at the largest
  \<open>int\<close>, where it wraps around to the most negative one.
\<close>

lemma uint_MaxInt: "uint MaxInt = 2 ^ 63 - 1"
  by (simp add: MaxInt_def)

lemma sint_succ:
  fixes i :: go_int
  assumes "i \<noteq> MaxInt"
  shows "sint (i + 1) = sint i + 1"
proof -
  have ne: "uint i \<noteq> 2 ^ 63 - 1"
    using assms uint_MaxInt by (metis word_uint_eq_iff)
  have lo: "0 \<le> uint i" and hi: "uint i < 2 ^ 64" using uint_lt2p [of i] by simp_all
  show ?thesis
  proof (cases "uint i = 2 ^ 64 - 1")
    case True
    then have "uint (i + 1) = 0" by (simp add: uint_word_ariths)
    with True show ?thesis
      by (simp add: sint_uint_cases [of i] sint_uint_cases [of "i + 1"])
  next
    case False
    with hi have "uint i + 1 < 2 ^ 64" by simp
    with lo have "(uint i + 1) mod 2 ^ 64 = uint i + 1"
      by (intro mod_pos_pos_trivial) simp_all
    then have u: "uint (i + 1) = uint i + 1" by (simp add: uint_word_ariths)
    show ?thesis
      using ne by (simp add: sint_uint_cases [of i] sint_uint_cases [of "i + 1"] u)
  qed
qed

lemma CursorPosX_MaxInt: "CursorPosX MaxInt = Esc @ ''-9223372036854775808G''"
proof -
  have wrap: "MaxInt + 1 = MinInt" by (simp add: MaxInt_def MinInt_def)
  have neg: "MinInt <s 0" "- MinInt = MinInt" by (simp_all add: MinInt_def word_sless_alt)
  have fmt: "formatBits MinInt = ''9223372036854775808''"
    unfolding MinInt_def by code_simp
  show ?thesis by (simp add: CursorPosX_def Itoa_def wrap neg fmt)
qed

text \<open>RFC 4648's test vectors, on the bytes of \<open>f\<close>, \<open>fo\<close>, \<open>foo\<close>, \<open>foob\<close>, \<open>fooba\<close>, \<open>foobar\<close>.\<close>

lemma EncodeToString_rfc4648:
  "EncodeToString [] = []"
  "EncodeToString [0x66] = ''Zg==''"
  "EncodeToString [0x66, 0x6F] = ''Zm8=''"
  "EncodeToString [0x66, 0x6F, 0x6F] = ''Zm9v''"
  "EncodeToString [0x66, 0x6F, 0x6F, 0x62] = ''Zm9vYg==''"
  "EncodeToString [0x66, 0x6F, 0x6F, 0x62, 0x61] = ''Zm9vYmE=''"
  "EncodeToString [0x66, 0x6F, 0x6F, 0x62, 0x61, 0x72] = ''Zm9vYmFy''"
  by code_simp+

lemma EncodeToString_length: "length (EncodeToString src) = 4 * ((length src + 2) div 3)"
proof (induction src rule: EncodeToString.induct)
  case (1 a b c src)
  have "(length src + 5) div 3 = Suc ((length src + 2) div 3)" by arith
  with 1 show ?case by (simp add: Let_def add.commute)
qed (simp_all add: Let_def)

section \<open>Cursor positioning\<close>


section \<open>Relative moves and scrolling\<close>



text \<open>
  C5, amended. For every input of \<open>CursorMove\<close> and \<open>Scroll\<close> other than the most
  negative \<open>int\<close>, \<open>- 2 ^ 63\<close>, each number written into the output is the notation
  of the magnitude of the argument: the shortest decimal notation of a natural number,
  digits only, with no leading zero, no padding and no minus sign. A zero argument
  writes no number at all.
\<close>

theorem magnitudes_unsigned:
  assumes "x \<noteq> MinInt" and "y \<noteq> MinInt" and "n \<noteq> MinInt"
  shows "CursorMove x y =
           (if x = 0 then []
            else Esc @ spec_nat_digits (nat \<bar>sint x\<bar>) @ (if sint x < 0 then ''D'' else ''C''))
           @ (if y = 0 then []
              else Esc @ spec_nat_digits (nat \<bar>sint y\<bar>) @ (if sint y < 0 then ''A'' else ''B''))
         \<and> Scroll n =
           (if n = 0 then []
            else Esc @ spec_nat_digits (nat \<bar>sint n\<bar>) @ (if sint n < 0 then ''T'' else ''S''))
         \<and> shortest_decimal (spec_nat_digits (nat \<bar>sint x\<bar>)) (nat \<bar>sint x\<bar>)
         \<and> shortest_decimal (spec_nat_digits (nat \<bar>sint y\<bar>)) (nat \<bar>sint y\<bar>)
         \<and> shortest_decimal (spec_nat_digits (nat \<bar>sint n\<bar>)) (nat \<bar>sint n\<bar>)
         \<and> CHR ''-'' \<notin> set (spec_nat_digits (nat \<bar>sint x\<bar>))
         \<and> CHR ''-'' \<notin> set (spec_nat_digits (nat \<bar>sint y\<bar>))
         \<and> CHR ''-'' \<notin> set (spec_nat_digits (nat \<bar>sint n\<bar>))"
proof -
  have h: "(if i <s 0 then Esc @ Itoa (- i) @ a
            else if 0 <s i then Esc @ Itoa i @ b else []) =
           (if i = 0 then []
            else Esc @ spec_nat_digits (nat \<bar>sint i\<bar>) @ (if sint i < 0 then a else b))"
    if "i \<noteq> MinInt" for i :: go_int and a b :: string
  proof -
    consider "sint i < 0" | "sint i = 0" | "0 < sint i" by linarith
    then show ?thesis
    proof cases
      case 1
      with that show ?thesis
        by (auto simp: sless_zero_iff Itoa_magnitude_neg)
    next
      case 2
      then show ?thesis by (simp add: sless_zero_iff zero_sless_iff sint_zero_iff [symmetric])
    next
      case 3
      then have "i \<noteq> 0" by auto
      with 3 show ?thesis
        by (simp add: sless_zero_iff zero_sless_iff Itoa_magnitude_pos)
    qed
  qed
  have move: "CursorMove x y =
      (if x <s 0 then Esc @ Itoa (- x) @ ''D'' else if 0 <s x then Esc @ Itoa x @ ''C'' else [])
      @ (if y <s 0 then Esc @ Itoa (- y) @ ''A'' else if 0 <s y then Esc @ Itoa y @ ''B'' else [])"
    by (simp add: CursorMove_def Let_def)
  have scroll: "Scroll n =
      (if n <s 0 then Esc @ Itoa (- n) @ ''T'' else if 0 <s n then Esc @ Itoa n @ ''S'' else [])"
    by (simp add: Scroll_def sless_zero_iff zero_sless_iff)
  show ?thesis
    unfolding move scroll h [OF assms(1)] h [OF assms(2)] h [OF assms(3)]
    by (simp add: spec_nat_digits_shortest spec_nat_digits_no_minus)
qed

text \<open>The amended statement at the moves \<open>(2, -4)\<close> and the scroll \<open>-5\<close>.\<close>

theorem magnitudes_unsigned_witness:
  "(2 :: go_int) \<noteq> MinInt \<and> (- 4 :: go_int) \<noteq> MinInt \<and> (- 5 :: go_int) \<noteq> MinInt
   \<and> CursorMove 2 (- 4) = Esc @ ''2C'' @ Esc @ ''4A''
   \<and> Scroll (- 5) = Esc @ ''5T''
   \<and> shortest_decimal ''2'' 2 \<and> shortest_decimal ''4'' 4 \<and> shortest_decimal ''5'' 5"
proof -
  have a: "(2 :: go_int) \<noteq> MinInt" and b: "(- 4 :: go_int) \<noteq> MinInt"
    and c: "(- 5 :: go_int) \<noteq> MinInt"
    by (simp_all add: MinInt_def)
  have d: "spec_nat_digits 2 = ''2''" "spec_nat_digits 4 = ''4''" "spec_nat_digits 5 = ''5''"
    by (simp_all add: spec_nat_digits.simps digits_def)
  show ?thesis
    using a b c magnitudes_unsigned [OF a b c] by (simp add: d)
qed

text \<open>
  At the most negative \<open>int\<close> Go's negation wraps around to the same value, so what
  \<open>Itoa\<close> formats is still negative and the output carries a minus sign.
\<close>

theorem minus_sign_at_MinInt:
  "Scroll MinInt = Esc @ ''-9223372036854775808T''
   \<and> CursorMove MinInt MinInt = Esc @ ''-9223372036854775808D'' @ Esc @ ''-9223372036854775808A''
   \<and> CHR ''-'' \<in> set (Scroll MinInt)
   \<and> CHR ''-'' \<in> set (CursorMove MinInt MinInt)"
proof -
  have neg: "MinInt <s 0" "\<not> 0 <s MinInt" "- MinInt = MinInt"
    by (simp_all add: MinInt_def word_sless_alt)
  have fmt: "formatBits MinInt = ''9223372036854775808''"
    unfolding MinInt_def by code_simp
  show ?thesis
    by (simp add: Scroll_def CursorMove_def Let_def Itoa_def neg fmt)
qed

text \<open>
  C10. For all \<open>x\<close> and \<open>y\<close>, \<open>CursorMove x y\<close> is \<open>CursorMove x 0\<close> followed by
  \<open>CursorMove 0 y\<close>: a combined move is its two single-axis moves, one after the
  other.
\<close>

theorem CursorMove_decomposes: "CursorMove x y = CursorMove x 0 @ CursorMove 0 y"
  by (simp add: CursorMove_def Let_def)

section \<open>Text editing\<close>

text \<open>
  C6. For every \<open>n\<close>, negative and zero included, each of the five text edit functions
  returns the prefix, the decimal notation of \<open>n\<close> and its own letter: \<open>@\<close>, \<open>P\<close>,
  \<open>X\<close>, \<open>L\<close> and \<open>M\<close>.
\<close>

theorem Text_edit_format:
  "TextInsertChars n = Esc @ spec_decimal (sint n) @ ''@''
   \<and> TextDeleteChars n = Esc @ spec_decimal (sint n) @ ''P''
   \<and> TextEraseChars n = Esc @ spec_decimal (sint n) @ ''X''
   \<and> TextInsertLines n = Esc @ spec_decimal (sint n) @ ''L''
   \<and> TextDeleteLines n = Esc @ spec_decimal (sint n) @ ''M''"
  by (simp add: TextInsertChars_def TextDeleteChars_def TextEraseChars_def
      TextInsertLines_def TextDeleteLines_def Itoa_spec)

section \<open>Hyperlinks and images\<close>

text \<open>
  C8. For all strings \<open>url\<close> and \<open>text\<close>, whatever bytes they hold, \<open>Link url text\<close> is
  \<open>Osc\<close>, \<open>8;;\<close>, the url, \<open>Bel\<close>, the text, \<open>Osc\<close>, \<open>8;;\<close> and \<open>Bel\<close>: nothing is
  escaped, and the bell closes both parts.
\<close>

theorem Link_envelope:
  "Link url text = Osc @ ''8;;'' @ url @ Bel @ text @ Osc @ ''8;;'' @ Bel"
  by (simp add: Link_def)

text \<open>
  C1. For every byte slice \<open>img\<close>, all \<open>height\<close> and \<open>width\<close> and every \<open>p\<close>,
  \<open>ImageWidthHeight img height width p\<close> is \<open>Osc\<close> and \<open>1337;File=inline=1\<close>, then
  \<open>;width=\<close> and the decimal notation of the height argument exactly when that
  argument is positive, then \<open>;height=\<close> and the decimal notation of the width
  argument exactly when that argument is positive, then \<open>;preserveAspectRatio=0\<close>
  exactly when \<open>p\<close> is false, then a colon, the padded standard base64 of \<open>img\<close> and
  \<open>Bel\<close>.
\<close>

theorem ImageWidthHeight_format:
  "ImageWidthHeight img height width p =
     Osc @ ''1337;File=inline=1''
     @ (if 0 < sint height then '';width='' @ spec_decimal (sint height) else [])
     @ (if 0 < sint width then '';height='' @ spec_decimal (sint width) else [])
     @ (if p then [] else '';preserveAspectRatio=0'')
     @ '':'' @ EncodeToString img @ Bel"
  by (simp add: ImageWidthHeight_def Let_def Itoa_spec zero_sless_iff)

text \<open>
  C7. For every byte slice \<open>img\<close>, \<open>Image img\<close> is \<open>ImageWidthHeight img 0 0 True\<close>:
  no size field and no aspect ratio field, only the envelope around the base64 of
  \<open>img\<close>.
\<close>

theorem Image_delegates:
  "Image img = ImageWidthHeight img 0 0 True
   \<and> Image img = Osc @ ''1337;File=inline=1'' @ '':'' @ EncodeToString img @ Bel"
  by (simp add: Image_def ImageWidthHeight_def Let_def)

section \<open>The constant table\<close>

text \<open>
  C9. \<open>CursorBlinkDisable\<close> is the prefix and \<open>?12I\<close>, ending in an upper case \<open>I\<close>,
  while \<open>CursorBlinkEnable\<close> is the prefix and \<open>?12h\<close>, ending in a lower case letter;
  \<open>ClearScreen\<close> is the two bytes \<open>0x1B\<close> and \<open>c\<close>, and does not start with the
  prefix.
\<close>

theorem constants_literal:
  "CursorBlinkDisable = Esc @ ''?12I''
   \<and> CursorBlinkEnable = Esc @ ''?12h''
   \<and> last CursorBlinkDisable = CHR ''I''
   \<and> last CursorBlinkEnable = CHR ''h''
   \<and> ClearScreen = [CHR 0x1B, CHR ''c'']
   \<and> length ClearScreen = 2
   \<and> (of_char (hd ClearScreen) :: nat) = 27
   \<and> \<not> prefix Esc ClearScreen"
  by (simp add: CursorBlinkDisable_def CursorBlinkEnable_def ClearScreen_def Esc_def)

end
